theory Spec2Isabelle
  imports Main "HOL-Library.Sublist"
begin

section \<open>The worktree node's log cache (WorktreeNode)\<close>

text \<open>
  The class \<^verbatim>\<open>WorktreeNode\<close> keeps one cached log window in the private field
  \<^verbatim>\<open>_log\<close> and a remembered page size in \<^verbatim>\<open>limit\<close>. Its asynchronous methods are
  embedded segment by segment: JavaScript runs a method without interruption from one
  \<^verbatim>\<open>await\<close> to the next, so every stretch of code between two suspension points is one
  atomic function on the node's state. A method run with nothing else scheduled in
  between is the composition of its segments.
\<close>

subsection \<open>Data\<close>

text \<open>A settled promise: rejected (the \<^verbatim>\<open>await\<close> throws) or resolved with a value.\<close>

datatype 'a outcome = Rejected | Resolved 'a

text \<open>What a method has done when control returns to the event loop.\<close>

datatype 'a progress = Completed 'a | Suspended

text \<open>The argument of \<^verbatim>\<open>loadMore\<close> and of the continuation: \<^verbatim>\<open>number | { until?: any }\<close>.\<close>

datatype limit_arg = Count nat | Until string

text \<open>
  Modelled from the spec: the declaration of a history entry (\<^verbatim>\<open>GitCommit\<close>, in
  \<^verbatim>\<open>git/models\<close>) is not part of the sources. An entry has an identity and a timestamp
  (milliseconds since the epoch).
\<close>

record GitCommit =
  sha :: string
  date :: nat

text \<open>
  Modelled from the spec: the declaration of \<^verbatim>\<open>GitLog\<close> (in \<^verbatim>\<open>git/models\<close>) is not part
  of the sources. The node reads four members of it: \<^verbatim>\<open>commits\<close> (a map whose
  \<^verbatim>\<open>values()\<close> are the ordered entries), \<^verbatim>\<open>hasMore\<close>, \<^verbatim>\<open>count\<close> and the optional
  continuation \<^verbatim>\<open>more\<close>. A window is an object: \<open>ref\<close> is its identity, and the
  comparison \<^verbatim>\<open>===\<close> of two windows compares identities, not contents. The selector of
  the continuation is written \<open>GitLog.more\<close> below, since every record has a field of
  that name.
\<close>

datatype GitLog =
  GitLog (ref: nat) (commits: "GitCommit list") (hasMore: bool) (count: nat)
         (more: "(limit_arg \<Rightarrow> GitLog option outcome) option")

text \<open>Modelled from the spec: \<^verbatim>\<open>GitStatus\<close>, of which only \<^verbatim>\<open>hasChanges\<close> is read.\<close>

record GitStatus =
  hasChanges :: bool

text \<open>\<^verbatim>\<open>view.config\<close>: the two page sizes the node reads.\<close>

record config =
  defaultItemLimit :: nat
  pageItemLimit :: nat

text \<open>
  The node. \<open>p_log\<close> is the private field \<^verbatim>\<open>_log\<close> and \<open>limit\<close> the public field. The
  other three fields record what the node did to its collaborators, in call order: the
  \<^verbatim>\<open>limit\<close> of every call of \<^verbatim>\<open>view.container.git.getLog\<close>, the argument of every call
  of a continuation \<^verbatim>\<open>more\<close>, and the argument of every \<^verbatim>\<open>triggerChange\<close>.
\<close>

record WorktreeNode =
  p_log :: "GitLog option"
  limit :: "nat option"
  getLogCalls :: "nat list"
  moreCalls :: "limit_arg list"
  triggerChanges :: "bool list"

text \<open>The children a node can produce.\<close>

datatype ViewNode =
    MessageNode string
  | CommitNode GitCommit
  | DateMarkerNode
  | LoadMoreNode "ViewNode option"
  | UncommittedFilesNode GitStatus

subsection \<open>refresh, getLog, hasMore\<close>

text \<open>
  \<^verbatim>\<open>refresh(reset?)\<close> has no \<^verbatim>\<open>await\<close>: it runs to completion in the turn that calls it,
  so its \<^verbatim>\<open>@gate()\<close> never finds an earlier call still in flight.
\<close>

definition refresh :: "bool option \<Rightarrow> WorktreeNode \<Rightarrow> WorktreeNode" where
  "refresh reset s = (if reset = Some True then s\<lparr>p_log := None\<rparr> else s)"

text \<open>
  \<^verbatim>\<open>getLog\<close> up to its \<^verbatim>\<open>await\<close>: with a cached window it returns it; otherwise it calls
  the history source with \<^verbatim>\<open>this.limit ?? this.view.config.defaultItemLimit\<close> and suspends.
\<close>

definition getLog_call :: "config \<Rightarrow> WorktreeNode \<Rightarrow> GitLog option progress \<times> WorktreeNode" where
  "getLog_call cfg s =
     (case p_log s of
        Some w \<Rightarrow> (Completed (Some w), s)
      | None \<Rightarrow>
          (Suspended,
           s\<lparr>getLogCalls := getLogCalls s @
                [case limit s of Some n \<Rightarrow> n | None \<Rightarrow> defaultItemLimit cfg]\<rparr>))"

text \<open>
  \<^verbatim>\<open>getLog\<close> from its \<^verbatim>\<open>await\<close> on: a rejection propagates and leaves the field alone; a
  value is assigned to \<^verbatim>\<open>_log\<close> and returned.
\<close>

definition getLog_resume ::
    "GitLog option outcome \<Rightarrow> WorktreeNode \<Rightarrow> GitLog option outcome \<times> WorktreeNode" where
  "getLog_resume r s =
     (case r of
        Rejected \<Rightarrow> (Rejected, s)
      | Resolved v \<Rightarrow> (Resolved v, s\<lparr>p_log := v\<rparr>))"

text \<open>
  \<^verbatim>\<open>getLog\<close> run alone; \<open>answer\<close> is what the history source settles with if it is asked.
\<close>

definition getLog ::
    "config \<Rightarrow> GitLog option outcome \<Rightarrow> WorktreeNode \<Rightarrow> GitLog option outcome \<times> WorktreeNode" where
  "getLog cfg answer s =
     (case getLog_call cfg s of
        (Completed v, s') \<Rightarrow> (Resolved v, s')
      | (Suspended, s') \<Rightarrow> getLog_resume answer s')"

text \<open>The getter \<^verbatim>\<open>hasMore\<close>: \<^verbatim>\<open>this._log?.hasMore ?? true\<close>.\<close>

definition WorktreeNode_hasMore :: "WorktreeNode \<Rightarrow> bool" where
  "WorktreeNode_hasMore s = (case p_log s of None \<Rightarrow> True | Some w \<Rightarrow> hasMore w)"

subsection \<open>loadMore\<close>

text \<open>\<^verbatim>\<open>a === b\<close> on two values of type \<^verbatim>\<open>GitLog | undefined\<close>.\<close>

fun strict_eq :: "GitLog option \<Rightarrow> GitLog option \<Rightarrow> bool" where
  "strict_eq None None = True"
| "strict_eq (Some a) (Some b) = (ref a = ref b)"
| "strict_eq _ _ = False"

text \<open>
  The last segment of \<^verbatim>\<open>loadMore\<close>, after the continuation has settled with \<open>w'\<close>: nothing
  happens when \<^verbatim>\<open>this._log === log\<close>; otherwise the window is replaced, \<^verbatim>\<open>limit\<close> becomes
  \<^verbatim>\<open>log?.count\<close> and \<^verbatim>\<open>triggerChange(false)\<close> is called.
\<close>

definition loadMore_commit :: "GitLog option \<Rightarrow> WorktreeNode \<Rightarrow> WorktreeNode" where
  "loadMore_commit w' s =
     (if strict_eq (p_log s) w' then s
      else s\<lparr>p_log := w', limit := map_option count w',
             triggerChanges := triggerChanges s @ [False]\<rparr>)"

text \<open>The argument \<^verbatim>\<open>limit ?? this.view.config.pageItemLimit\<close> handed to a continuation.\<close>

definition moreArg :: "config \<Rightarrow> limit_arg option \<Rightarrow> limit_arg" where
  "moreArg cfg lim = (case lim of Some l \<Rightarrow> l | None \<Rightarrow> Count (pageItemLimit cfg))"

text \<open>
  \<^verbatim>\<open>loadMore(limit?)\<close> run alone (no other call of the node in between, so its
  \<^verbatim>\<open>@gate()\<close> admits it). \<^verbatim>\<open>window.withProgress\<close> hands back what its task \<^verbatim>\<open>getLog\<close>
  returns. \<^verbatim>\<open>log.more?.(...)\<close> is \<^verbatim>\<open>undefined\<close> when the window has no continuation.
\<close>

definition loadMore ::
    "config \<Rightarrow> GitLog option outcome \<Rightarrow> limit_arg option \<Rightarrow> WorktreeNode
      \<Rightarrow> unit outcome \<times> WorktreeNode" where
  "loadMore cfg answer lim s =
     (case getLog cfg answer s of
        (Rejected, s1) \<Rightarrow> (Rejected, s1)
      | (Resolved None, s1) \<Rightarrow> (Resolved (), s1)
      | (Resolved (Some w), s1) \<Rightarrow>
          if \<not> hasMore w then (Resolved (), s1)
          else
            (case GitLog.more w of
               None \<Rightarrow> (Resolved (), loadMore_commit None s1)
             | Some f \<Rightarrow>
                 (let a = moreArg cfg lim;
                      s2 = s1\<lparr>moreCalls := moreCalls s1 @ [a]\<rparr>
                  in case f a of
                       Rejected \<Rightarrow> (Rejected, s2)
                     | Resolved w' \<Rightarrow> (Resolved (), loadMore_commit w' s2))))"

subsection \<open>getChildren\<close>

text \<open>
  Modelled from the spec: \<^verbatim>\<open>insertDateMarkers\<close> (in \<^verbatim>\<open>./helpers\<close>) is not part of the
  sources. It emits the nodes it is given, in order, and puts a date-boundary marker
  between two consecutive entries that lie on different days.
\<close>

definition dayOf :: "GitCommit \<Rightarrow> nat" where
  "dayOf c = date c div 86400000"

fun crossesDay :: "ViewNode \<Rightarrow> ViewNode \<Rightarrow> bool" where
  "crossesDay (CommitNode a) (CommitNode b) = (dayOf a \<noteq> dayOf b)"
| "crossesDay _ _ = False"

fun insertDateMarkers :: "ViewNode list \<Rightarrow> ViewNode list" where
  "insertDateMarkers [] = []"
| "insertDateMarkers [n] = [n]"
| "insertDateMarkers (n # n' # ns) =
     (if crossesDay n n' then n # DateMarkerNode # insertDateMarkers (n' # ns)
      else n # insertDateMarkers (n' # ns))"

text \<open>\<^verbatim>\<open>children[children.length - 1]\<close>: \<^verbatim>\<open>undefined\<close> on an empty array.\<close>

definition lastChild :: "ViewNode list \<Rightarrow> ViewNode option" where
  "lastChild children = (if children = [] then None else Some (last children))"

text \<open>
  \<^verbatim>\<open>getChildren\<close> run alone. \<open>tips\<close> and \<open>status\<close> are what
  \<^verbatim>\<open>getBranchesAndTagsTipsFn\<close> and \<^verbatim>\<open>worktree.getStatus()\<close> settle with; the tips only
  decorate the commit nodes.
\<close>

definition getChildren ::
    "config \<Rightarrow> GitLog option outcome \<Rightarrow> unit outcome \<Rightarrow> GitStatus option outcome
      \<Rightarrow> WorktreeNode \<Rightarrow> ViewNode list outcome \<times> WorktreeNode" where
  "getChildren cfg answer tips status s =
     (case getLog cfg answer s of
        (Rejected, s1) \<Rightarrow> (Rejected, s1)
      | (Resolved None, s1) \<Rightarrow> (Resolved [MessageNode ''No commits could be found.''], s1)
      | (Resolved (Some w), s1) \<Rightarrow>
          (case tips of
             Rejected \<Rightarrow> (Rejected, s1)
           | Resolved _ \<Rightarrow>
               (let children = insertDateMarkers (map CommitNode (commits w));
                    children' =
                      (if hasMore w then children @ [LoadMoreNode (lastChild children)]
                       else children)
                in case status of
                     Rejected \<Rightarrow> (Rejected, s1)
                   | Resolved None \<Rightarrow> (Resolved children', s1)
                   | Resolved (Some st) \<Rightarrow>
                       (if hasChanges st
                        then (Resolved (UncommittedFilesNode st # children'), s1)
                        else (Resolved children', s1)))))"

text \<open>The history entry a child stands for, if it is an entry node.\<close>

fun entryOf :: "ViewNode \<Rightarrow> GitCommit option" where
  "entryOf (CommitNode c) = Some c"
| "entryOf _ = None"

subsection \<open>Several calls in a row\<close>

text \<open>
  A caller that invokes \<^verbatim>\<open>loadMore\<close> again and again, each call after the previous one
  has settled; every call comes with its argument and with the answer the history
  source would give if that call asked it.
\<close>

fun loadMore_each ::
    "config \<Rightarrow> (GitLog option outcome \<times> limit_arg option) list \<Rightarrow> WorktreeNode \<Rightarrow> WorktreeNode" where
  "loadMore_each cfg [] s = s"
| "loadMore_each cfg ((answer, lim) # calls) s =
     loadMore_each cfg calls (snd (loadMore cfg answer lim s))"

text \<open>
  A run of successful calls of \<^verbatim>\<open>loadMore\<close> in which every continuation keeps its
  contract: it resolves with a new window object that holds the entries of the window
  it belongs to followed by one more batch, and counts them. \<open>grows cfg s bs s'\<close>: such
  calls, one per batch of \<open>bs\<close>, lead from \<open>s\<close> to \<open>s'\<close>.
\<close>

inductive grows :: "config \<Rightarrow> WorktreeNode \<Rightarrow> GitCommit list list \<Rightarrow> WorktreeNode \<Rightarrow> bool" where
  grows_none: "grows cfg s [] s"
| grows_more:
    "p_log s = Some w \<Longrightarrow> hasMore w \<Longrightarrow> GitLog.more w = Some f \<Longrightarrow>
     f (moreArg cfg lim) = Resolved (Some w') \<Longrightarrow> ref w' \<noteq> ref w \<Longrightarrow>
     commits w' = commits w @ b \<Longrightarrow> count w' = count w + length b \<Longrightarrow>
     grows cfg (snd (loadMore cfg answer lim s)) bs s' \<Longrightarrow>
     grows cfg s (b # bs) s'"

subsection \<open>Interleaved calls\<close>

text \<open>
  Calls that overlap. The presentation layer may call \<^verbatim>\<open>getChildren\<close> (whose first
  action is \<^verbatim>\<open>getLog\<close>; neither carries a gate) and \<^verbatim>\<open>refresh\<close> while earlier calls are
  suspended. An event is one turn of the event loop: a new call of \<^verbatim>\<open>getLog\<close>, numbered
  by the caller; the history source settling the fetch of a suspended call; or a call of
  \<^verbatim>\<open>refresh\<close>. The machine keeps the node, the calls suspended at the \<^verbatim>\<open>await\<close>, and
  what each finished call returned.
\<close>

datatype event =
    GetLogCall nat
  | GetLogSettle nat "GitLog option outcome"
  | RefreshCall "bool option"

record machine =
  node :: WorktreeNode
  awaiting :: "nat list"
  returned :: "(nat \<times> GitLog option outcome) list"

text \<open>One event; \<open>None\<close> when the event cannot happen (a settled fetch nobody waits for,
  a call number used twice).\<close>

fun step :: "config \<Rightarrow> event \<Rightarrow> machine \<Rightarrow> machine option" where
  "step cfg (GetLogCall t) m =
     (if t \<in> set (awaiting m) \<or> t \<in> set (map fst (returned m)) then None
      else
        (case getLog_call cfg (node m) of
           (Completed v, s') \<Rightarrow> Some (m\<lparr>node := s', returned := returned m @ [(t, Resolved v)]\<rparr>)
         | (Suspended, s') \<Rightarrow> Some (m\<lparr>node := s', awaiting := awaiting m @ [t]\<rparr>)))"
| "step cfg (GetLogSettle t r) m =
     (if t \<notin> set (awaiting m) then None
      else
        (case getLog_resume r (node m) of
           (v, s') \<Rightarrow>
             Some (m\<lparr>node := s', awaiting := removeAll t (awaiting m),
                     returned := returned m @ [(t, v)]\<rparr>)))"
| "step cfg (RefreshCall reset) m = Some (m\<lparr>node := refresh reset (node m)\<rparr>)"

fun run :: "config \<Rightarrow> event list \<Rightarrow> machine \<Rightarrow> machine option" where
  "run cfg [] m = Some m"
| "run cfg (e # es) m = (case step cfg e m of None \<Rightarrow> None | Some m' \<Rightarrow> run cfg es m')"

text \<open>A node with nothing in flight.\<close>

definition idle :: "WorktreeNode \<Rightarrow> machine" where
  "idle s = \<lparr>node = s, awaiting = [], returned = []\<rparr>"

subsection \<open>Sample data\<close>

text \<open>
  A history of five entries read in pages of two: three windows, each continuation
  resolving with the next, larger one. The third entry is the first of a new day.
\<close>

definition cfg2 :: config where
  "cfg2 = \<lparr>defaultItemLimit = 2, pageItemLimit = 2\<rparr>"

definition c1 :: GitCommit where "c1 = \<lparr>sha = ''e5'', date = 172800000\<rparr>"
definition c2 :: GitCommit where "c2 = \<lparr>sha = ''d4'', date = 172800000\<rparr>"
definition c3 :: GitCommit where "c3 = \<lparr>sha = ''c3'', date = 86400000\<rparr>"
definition c4 :: GitCommit where "c4 = \<lparr>sha = ''b2'', date = 86400000\<rparr>"
definition c5 :: GitCommit where "c5 = \<lparr>sha = ''a1'', date = 0\<rparr>"

definition window5 :: GitLog where
  "window5 = GitLog 3 [c1, c2, c3, c4, c5] False 5 None"

definition window4 :: GitLog where
  "window4 = GitLog 2 [c1, c2, c3, c4] True 4 (Some (\<lambda>_. Resolved (Some window5)))"

definition window2 :: GitLog where
  "window2 = GitLog 1 [c1, c2] True 2 (Some (\<lambda>_. Resolved (Some window4)))"

text \<open>A window whose continuation resolves with the next batch alone.\<close>

definition batch34 :: GitLog where
  "batch34 = GitLog 5 [c3, c4] False 2 None"

definition window2b :: GitLog where
  "window2b = GitLog 4 [c1, c2] True 2 (Some (\<lambda>_. Resolved (Some batch34)))"

text \<open>A window whose continuation resolves with the window itself.\<close>

definition stuckWindow :: GitLog where
  "stuckWindow = GitLog 6 [c1, c2] True 2 (Some (\<lambda>_. Resolved (Some (GitLog 6 [c1, c2] True 2 None))))"

text \<open>A window that announces more entries and has no continuation.\<close>

definition orphanWindow :: GitLog where
  "orphanWindow = GitLog 7 [c1, c2] True 2 None"

text \<open>A node that has not loaded anything, and one that holds a window.\<close>

definition emptyNode :: WorktreeNode where
  "emptyNode = \<lparr>p_log = None, limit = None, getLogCalls = [], moreCalls = [], triggerChanges = []\<rparr>"

definition loadedNode :: "GitLog \<Rightarrow> WorktreeNode" where
  "loadedNode w = emptyNode\<lparr>p_log := Some w\<rparr>"

text \<open>A machine in which the first of two overlapping loads has installed the window of
  two entries and the second is still awaiting the history source.\<close>

definition busy :: machine where
  "busy = \<lparr>node = emptyNode\<lparr>p_log := Some window2, getLogCalls := [2, 2]\<rparr>,
           awaiting = [1], returned = [(0, Resolved (Some window2))]\<rparr>"

section \<open>Properties\<close>

subsection \<open>Auxiliary facts\<close>

lemma getLog_empty:
  "p_log s = None \<Longrightarrow>
     getLog cfg answer s =
       getLog_resume answer
         (s\<lparr>getLogCalls := getLogCalls s @
               [case limit s of Some n \<Rightarrow> n | None \<Rightarrow> defaultItemLimit cfg]\<rparr>)"
  by (simp add: getLog_def getLog_call_def)

lemma getLog_loaded: "p_log s = Some w \<Longrightarrow> getLog cfg answer s = (Resolved (Some w), s)"
  by (simp add: getLog_def getLog_call_def)

lemma loadMore_exhausted:
  "p_log s = Some w \<Longrightarrow> \<not> hasMore w \<Longrightarrow> loadMore cfg answer lim s = (Resolved (), s)"
  by (simp add: loadMore_def getLog_loaded)

lemma loadMore_new_window:
  assumes "p_log s = Some w" and "hasMore w" and "GitLog.more w = Some f"
    and "f (moreArg cfg lim) = Resolved (Some w')" and "ref w' \<noteq> ref w"
  shows "loadMore cfg answer lim s =
    (Resolved (),
     s\<lparr>moreCalls := moreCalls s @ [moreArg cfg lim], p_log := Some w',
       limit := Some (count w'), triggerChanges := triggerChanges s @ [False]\<rparr>)"
  using assms by (simp add: loadMore_def getLog_loaded loadMore_commit_def Let_def)

lemma grows_entries:
  "grows cfg s bs s' \<Longrightarrow> p_log s = Some w \<Longrightarrow>
     \<exists>w'. p_log s' = Some w' \<and> commits w' = commits w @ concat bs \<and>
          count w' = count w + sum_list (map length bs)"
proof (induction arbitrary: w rule: grows.induct)
  case (grows_none cfg s)
  then show ?case by simp
next
  case (grows_more s v f cfg lim v' b answer bs s')
  from grows_more.hyps(1-5)
  have "p_log (snd (loadMore cfg answer lim s)) = Some v'"
    by (simp add: loadMore_new_window)
  from grows_more.IH [OF this] obtain w' where
    w': "p_log s' = Some w'" "commits w' = commits v' @ concat bs"
        "count w' = count v' + sum_list (map length bs)" by blast
  from grows_more.prems grows_more.hyps(1) have "v = w" by simp
  with w' grows_more.hyps(6,7) show ?case by simp
qed

lemma grows_limit:
  "grows cfg s bs s' \<Longrightarrow> bs \<noteq> [] \<Longrightarrow> limit s' = map_option count (p_log s')"
proof (induction rule: grows.induct)
  case (grows_none cfg s)
  then show ?case by simp
next
  case (grows_more s v f cfg lim v' b answer bs s')
  show ?case
  proof (cases bs)
    case Nil
    with grows_more.hyps(8) have "s' = snd (loadMore cfg answer lim s)"
      by (auto elim: grows.cases)
    with grows_more.hyps(1-5) show ?thesis by (simp add: loadMore_new_window)
  next
    case (Cons a list)
    with grows_more.IH show ?thesis by simp
  qed
qed

text \<open>The sample history is read in two successful calls: first the batch of the third
  and fourth entry, then the fifth.\<close>

lemma grows_sample:
  "grows cfg2 (loadedNode window2) [[c3, c4], [c5]]
     (loadMore_each cfg2 [(Rejected, None), (Rejected, None)] (loadedNode window2))"
proof -
  let ?s1 = "snd (loadMore cfg2 Rejected None (loadedNode window2))"
  let ?s2 = "snd (loadMore cfg2 Rejected None ?s1)"
  have p1: "p_log ?s1 = Some window4"
    by (simp add: loadMore_def getLog_def getLog_call_def loadMore_commit_def Let_def moreArg_def
      loadedNode_def emptyNode_def window2_def window4_def)
  have g2: "grows cfg2 ?s1 [[c5]] ?s2"
    by (rule grows_more [where w = window4 and w' = window5
          and f = "\<lambda>_. Resolved (Some window5)" and answer = Rejected and lim = None])
       (simp_all add: p1 window4_def window5_def grows_none)
  have "grows cfg2 (loadedNode window2) [[c3, c4], [c5]] ?s2"
    by (rule grows_more [where w = window2 and w' = window4
          and f = "\<lambda>_. Resolved (Some window4)" and answer = Rejected and lim = None,
          OF _ _ _ _ _ _ _ g2])
       (simp_all add: loadedNode_def emptyNode_def window2_def window4_def)
  then show ?thesis by simp
qed

subsection \<open>Extending the window\<close>

text \<open>
  Claim C3, as the code has it. A successful \<^verbatim>\<open>loadMore\<close> on a window with
  \<^verbatim>\<open>hasMore\<close> replaces the cached window by the very window its continuation resolved
  with (a different object from the cached one): entries, \<^verbatim>\<open>hasMore\<close>, continuation and
  count are all those of the returned window, and \<^verbatim>\<open>limit\<close> becomes its count. The node
  does not concatenate anything itself. When every continuation returns a window that
  holds the previous entries followed by a new batch and counts them, then after any
  number of successful calls the cached entries are the initial ones followed by the
  batches in order, and the count is the initial count plus the sizes of the batches.
\<close>

theorem loadMore_replaces_window:
  "(p_log s = Some w \<and> hasMore w \<and> GitLog.more w = Some f \<and>
    f (moreArg cfg lim) = Resolved (Some w') \<and> ref w' \<noteq> ref w \<longrightarrow>
      loadMore cfg answer lim s =
        (Resolved (),
         s\<lparr>moreCalls := moreCalls s @ [moreArg cfg lim], p_log := Some w',
           limit := Some (count w'), triggerChanges := triggerChanges s @ [False]\<rparr>)) \<and>
   (grows cfg s bs s' \<and> p_log s = Some w \<longrightarrow>
      (\<exists>w'. p_log s' = Some w' \<and> commits w' = commits w @ concat bs \<and>
            count w' = count w + sum_list (map length bs) \<and>
            (bs \<noteq> [] \<longrightarrow> limit s' = Some (count w'))))"
proof (intro conjI impI)
  assume "p_log s = Some w \<and> hasMore w \<and> GitLog.more w = Some f \<and>
    f (moreArg cfg lim) = Resolved (Some w') \<and> ref w' \<noteq> ref w"
  then show "loadMore cfg answer lim s =
        (Resolved (),
         s\<lparr>moreCalls := moreCalls s @ [moreArg cfg lim], p_log := Some w',
           limit := Some (count w'), triggerChanges := triggerChanges s @ [False]\<rparr>)"
    by (simp add: loadMore_new_window)
next
  assume a: "grows cfg s bs s' \<and> p_log s = Some w"
  then obtain w' where w': "p_log s' = Some w'" "commits w' = commits w @ concat bs"
      "count w' = count w + sum_list (map length bs)"
    using grows_entries by blast
  moreover have "bs \<noteq> [] \<longrightarrow> limit s' = Some (count w')"
    using a grows_limit [of cfg s bs s'] w'(1) by simp
  ultimately show "\<exists>w'. p_log s' = Some w' \<and> commits w' = commits w @ concat bs \<and>
            count w' = count w + sum_list (map length bs) \<and>
            (bs \<noteq> [] \<longrightarrow> limit s' = Some (count w'))" by blast
qed

text \<open>The sample history: one call installs the window of four entries, two calls the
  window of all five.\<close>

theorem loadMore_replaces_window_witness:
  "loadMore cfg2 Rejected None (loadedNode window2) =
     (Resolved (),
      (loadedNode window2)\<lparr>moreCalls := [Count 2], p_log := Some window4, limit := Some 4,
                            triggerChanges := [False]\<rparr>) \<and>
   (\<exists>w'. p_log (loadMore_each cfg2 [(Rejected, None), (Rejected, None)] (loadedNode window2))
            = Some w' \<and>
         commits w' = [c1, c2, c3, c4, c5] \<and> count w' = 5 \<and>
         limit (loadMore_each cfg2 [(Rejected, None), (Rejected, None)] (loadedNode window2))
            = Some 5)"
proof -
  have one: "p_log (loadedNode window2) = Some window2 \<and> hasMore window2 \<and>
      GitLog.more window2 = Some (\<lambda>_. Resolved (Some window4)) \<and>
      (\<lambda>_. Resolved (Some window4)) (moreArg cfg2 None) = Resolved (Some window4) \<and>
      ref window4 \<noteq> ref window2"
    by (simp add: loadedNode_def emptyNode_def window2_def window4_def)
  have many: "grows cfg2 (loadedNode window2) [[c3, c4], [c5]]
      (loadMore_each cfg2 [(Rejected, None), (Rejected, None)] (loadedNode window2)) \<and>
      p_log (loadedNode window2) = Some window2"
    using grows_sample by (simp add: loadedNode_def emptyNode_def)
  note inst = loadMore_replaces_window [where s = "loadedNode window2" and w = window2
      and f = "\<lambda>_. Resolved (Some window4)" and cfg = cfg2 and lim = None and w' = window4
      and answer = Rejected and bs = "[[c3, c4], [c5]]"
      and s' = "loadMore_each cfg2 [(Rejected, None), (Rejected, None)] (loadedNode window2)"]
  have vals: "moreCalls (loadedNode window2) = []" "triggerChanges (loadedNode window2) = []"
      "moreArg cfg2 None = Count 2" "count window4 = 4" "count window2 = 2"
      "commits window2 = [c1, c2]"
    by (simp_all add: loadedNode_def emptyNode_def moreArg_def cfg2_def window2_def window4_def)
  from inst one have first: "loadMore cfg2 Rejected None (loadedNode window2) =
     (Resolved (),
      (loadedNode window2)\<lparr>moreCalls := [Count 2], p_log := Some window4, limit := Some 4,
                            triggerChanges := [False]\<rparr>)"
    by (simp add: vals)
  from inst many obtain w' where
    "p_log (loadMore_each cfg2 [(Rejected, None), (Rejected, None)] (loadedNode window2)) = Some w'"
    "commits w' = commits window2 @ concat [[c3, c4], [c5]]"
    "count w' = count window2 + sum_list (map length [[c3, c4], [c5]])"
    "limit (loadMore_each cfg2 [(Rejected, None), (Rejected, None)] (loadedNode window2))
       = Some (count w')"
    by blast
  then have "\<exists>w'. p_log (loadMore_each cfg2 [(Rejected, None), (Rejected, None)] (loadedNode window2))
            = Some w' \<and>
         commits w' = [c1, c2, c3, c4, c5] \<and> count w' = 5 \<and>
         limit (loadMore_each cfg2 [(Rejected, None), (Rejected, None)] (loadedNode window2))
            = Some 5"
    by (simp add: vals)
  with first show ?thesis by blast
qed

text \<open>
  Claim C3, as stated, fails: a continuation that resolves with the next batch alone
  (the third and fourth entry) leaves exactly that batch in the cache, which does not
  begin with the entries held before.
\<close>

theorem loadMore_batch_counterexample:
  "map_option commits (p_log (snd (loadMore cfg2 Rejected None (loadedNode window2b))))
     = Some [c3, c4] \<and>
   \<not> prefix (commits window2b) [c3, c4]"
  by (simp add: loadMore_def getLog_def getLog_call_def loadMore_commit_def Let_def moreArg_def
      loadedNode_def emptyNode_def window2b_def batch34_def cfg2_def c1_def c2_def c3_def c4_def)

text \<open>
  Claim C4. When the cached window has \<^verbatim>\<open>hasMore\<close> false, \<^verbatim>\<open>loadMore\<close> does nothing at
  all: the node is left exactly as it was (no call of the history source, no call of a
  continuation, no \<^verbatim>\<open>triggerChange\<close>, the same window and \<^verbatim>\<open>limit\<close>), and so is it after
  any number of further calls, whatever their arguments.
\<close>

theorem loadMore_no_more:
  assumes "p_log s = Some w" and "\<not> hasMore w"
  shows "loadMore cfg answer lim s = (Resolved (), s) \<and> loadMore_each cfg calls s = s"
proof
  show "loadMore cfg answer lim s = (Resolved (), s)" using assms by (rule loadMore_exhausted)
  show "loadMore_each cfg calls s = s"
    using assms by (induction calls) (auto simp: loadMore_exhausted)
qed

text \<open>The window of all five entries has nothing more to load.\<close>

theorem loadMore_no_more_witness:
  "loadMore cfg2 Rejected None (loadedNode window5) = (Resolved (), loadedNode window5) \<and>
   loadMore_each cfg2 [(Rejected, None), (Resolved None, Some (Count 7))] (loadedNode window5)
     = loadedNode window5"
proof -
  have "p_log (loadedNode window5) = Some window5" "\<not> hasMore window5"
    by (simp_all add: loadedNode_def window5_def)
  then show ?thesis by (rule loadMore_no_more)
qed

text \<open>
  Claim C7. When the continuation resolves with the very window object that is cached,
  \<^verbatim>\<open>loadMore\<close> changes nothing but the record of the continuation call it made: the
  cached window, \<^verbatim>\<open>limit\<close> and the notifications sent stay as they were.
\<close>

theorem loadMore_same_reference:
  assumes "p_log s = Some w" and "hasMore w" and "GitLog.more w = Some f"
    and "f (moreArg cfg lim) = Resolved (Some w')" and "ref w' = ref w"
  shows "loadMore cfg answer lim s = (Resolved (), s\<lparr>moreCalls := moreCalls s @ [moreArg cfg lim]\<rparr>)"
  using assms by (simp add: loadMore_def getLog_loaded loadMore_commit_def Let_def)

text \<open>A window whose continuation hands the window itself back.\<close>

theorem loadMore_same_reference_witness:
  "loadMore cfg2 Rejected None (loadedNode stuckWindow) =
     (Resolved (), (loadedNode stuckWindow)\<lparr>moreCalls := [Count 2]\<rparr>)"
proof -
  have h: "p_log (loadedNode stuckWindow) = Some stuckWindow" "hasMore stuckWindow"
     "GitLog.more stuckWindow = Some (\<lambda>_. Resolved (Some (GitLog 6 [c1, c2] True 2 None)))"
     "(\<lambda>_. Resolved (Some (GitLog 6 [c1, c2] True 2 None))) (moreArg cfg2 None) = Resolved (Some (GitLog 6 [c1, c2] True 2 None))"
     "ref (GitLog 6 [c1, c2] True 2 None) = ref stuckWindow"
    by (simp_all add: loadedNode_def stuckWindow_def)
  have v: "moreCalls (loadedNode stuckWindow) = []" "moreArg cfg2 None = Count 2"
    by (simp_all add: loadedNode_def emptyNode_def moreArg_def cfg2_def)
  from loadMore_same_reference [OF h, where answer = Rejected] show ?thesis by (simp add: v)
qed

text \<open>
  Claim C10. When the cached window has \<^verbatim>\<open>hasMore\<close> true and no continuation,
  \<^verbatim>\<open>loadMore\<close> calls nothing, sets \<^verbatim>\<open>_log\<close> and \<^verbatim>\<open>limit\<close> to \<^verbatim>\<open>undefined\<close> and still
  calls \<^verbatim>\<open>triggerChange(false)\<close>.
\<close>

theorem loadMore_no_continuation:
  assumes "p_log s = Some w" and "hasMore w" and "GitLog.more w = None"
  shows "loadMore cfg answer lim s =
           (Resolved (), s\<lparr>p_log := None, limit := None, triggerChanges := triggerChanges s @ [False]\<rparr>)"
  using assms by (simp add: loadMore_def getLog_loaded loadMore_commit_def)

text \<open>A window of two entries that announces more and has no continuation, in a node that
  remembered a limit of two.\<close>

theorem loadMore_no_continuation_witness:
  "loadMore cfg2 Rejected None ((loadedNode orphanWindow)\<lparr>limit := Some 2\<rparr>) =
     (Resolved (), (loadedNode orphanWindow)\<lparr>p_log := None, limit := None, triggerChanges := [False]\<rparr>)"
proof -
  have h: "p_log ((loadedNode orphanWindow)\<lparr>limit := Some 2\<rparr>) = Some orphanWindow" "hasMore orphanWindow"
     "GitLog.more orphanWindow = None"
    by (simp_all add: loadedNode_def orphanWindow_def)
  from loadMore_no_continuation [OF h, where cfg = cfg2 and answer = Rejected and lim = None] show ?thesis
    by (simp add: loadedNode_def emptyNode_def)
qed

subsection \<open>The limit requested and remembered\<close>

text \<open>What a load asks the history source, what it leaves alone, and what it installs.\<close>

lemma getLog_calls:
  "getLogCalls (snd (getLog cfg answer s)) =
     (case p_log s of
        None \<Rightarrow> getLogCalls s @ [case limit s of Some n \<Rightarrow> n | None \<Rightarrow> defaultItemLimit cfg]
      | Some _ \<Rightarrow> getLogCalls s)"
  by (cases answer)
     (simp_all add: getLog_def getLog_call_def getLog_resume_def split: option.splits)

lemma getLog_frame:
  "moreCalls (snd (getLog cfg answer s)) = moreCalls s \<and>
   triggerChanges (snd (getLog cfg answer s)) = triggerChanges s \<and>
   limit (snd (getLog cfg answer s)) = limit s"
  by (cases answer)
     (simp_all add: getLog_def getLog_call_def getLog_resume_def split: option.splits)

lemma getLog_installs:
  "fst (getLog cfg answer s) = Resolved (Some w) \<Longrightarrow> p_log (snd (getLog cfg answer s)) = Some w"
  by (cases answer)
     (auto simp: getLog_def getLog_call_def getLog_resume_def split: option.splits)

lemma loadMore_after_load:
  assumes "fst (getLog cfg answer s) = Resolved (Some w)" and "hasMore w"
    and "GitLog.more w = Some f"
    and "f (moreArg cfg lim) = Resolved (Some w')" and "ref w' \<noteq> ref w"
  shows "loadMore cfg answer lim s =
    (Resolved (),
     (snd (getLog cfg answer s))
       \<lparr>moreCalls := moreCalls s @ [moreArg cfg lim], p_log := Some w',
        limit := Some (count w'), triggerChanges := triggerChanges s @ [False]\<rparr>)"
proof -
  obtain r s1 where g: "getLog cfg answer s = (r, s1)" by (cases "getLog cfg answer s")
  with assms(1) have r: "r = Resolved (Some w)" by simp
  from getLog_installs [OF assms(1)] g have p: "p_log s1 = Some w" by simp
  from getLog_frame [of cfg answer s] g
  have fr: "moreCalls s1 = moreCalls s" "triggerChanges s1 = triggerChanges s" by simp_all
  show ?thesis
    using assms(2-5) by (simp add: loadMore_def g r p fr loadMore_commit_def Let_def)
qed

text \<open>
  Claim C8. A load on an empty cache asks the history source for
  \<^verbatim>\<open>limit ?? defaultItemLimit\<close> entries. Every successful \<^verbatim>\<open>loadMore\<close> (its own
  \<^verbatim>\<open>getLog\<close> yields a window, cached before or loaded by this very call, and the
  continuation of that window resolves with a new window) sets \<^verbatim>\<open>limit\<close> to the new
  window's count, calls \<^verbatim>\<open>triggerChange(false)\<close> and leaves the new window cached. It
  asks the history source nothing beyond the initial load it may have had to make
  itself: nothing at all when a window was cached. A full reload after it
  (\<^verbatim>\<open>refresh(true)\<close>, then a load) asks the history source for exactly the new count.
\<close>

theorem limit_requested_and_remembered:
  "(p_log s = None \<longrightarrow>
      getLogCalls (snd (getLog cfg answer s)) =
        getLogCalls s @ [case limit s of Some n \<Rightarrow> n | None \<Rightarrow> defaultItemLimit cfg]) \<and>
   (fst (getLog cfg answer s) = Resolved (Some w) \<and> hasMore w \<and> GitLog.more w = Some f \<and>
    f (moreArg cfg lim) = Resolved (Some w') \<and> ref w' \<noteq> ref w \<longrightarrow>
      limit (snd (loadMore cfg answer lim s)) = Some (count w') \<and>
      triggerChanges (snd (loadMore cfg answer lim s)) = triggerChanges s @ [False] \<and>
      p_log (snd (loadMore cfg answer lim s)) = Some w' \<and>
      getLogCalls (snd (loadMore cfg answer lim s)) =
        (case p_log s of
           None \<Rightarrow> getLogCalls s @ [case limit s of Some n \<Rightarrow> n | None \<Rightarrow> defaultItemLimit cfg]
         | Some _ \<Rightarrow> getLogCalls s) \<and>
      getLogCalls (snd (getLog cfg answer' (refresh (Some True) (snd (loadMore cfg answer lim s)))))
        = getLogCalls (snd (loadMore cfg answer lim s)) @ [count w'])"
proof (intro conjI impI)
  assume "p_log s = None"
  then show "getLogCalls (snd (getLog cfg answer s)) =
        getLogCalls s @ [case limit s of Some n \<Rightarrow> n | None \<Rightarrow> defaultItemLimit cfg]"
    by (simp add: getLog_calls)
next
  assume a: "fst (getLog cfg answer s) = Resolved (Some w) \<and> hasMore w \<and> GitLog.more w = Some f \<and>
    f (moreArg cfg lim) = Resolved (Some w') \<and> ref w' \<noteq> ref w"
  then have eq: "loadMore cfg answer lim s =
    (Resolved (),
     (snd (getLog cfg answer s))
       \<lparr>moreCalls := moreCalls s @ [moreArg cfg lim], p_log := Some w',
        limit := Some (count w'), triggerChanges := triggerChanges s @ [False]\<rparr>)"
    by (simp add: loadMore_after_load)
  show "limit (snd (loadMore cfg answer lim s)) = Some (count w')" by (simp add: eq)
  show "triggerChanges (snd (loadMore cfg answer lim s)) = triggerChanges s @ [False]"
    by (simp add: eq)
  show "p_log (snd (loadMore cfg answer lim s)) = Some w'" by (simp add: eq)
  show "getLogCalls (snd (loadMore cfg answer lim s)) =
        (case p_log s of
           None \<Rightarrow> getLogCalls s @ [case limit s of Some n \<Rightarrow> n | None \<Rightarrow> defaultItemLimit cfg]
         | Some _ \<Rightarrow> getLogCalls s)"
    by (simp add: eq getLog_calls)
  show "getLogCalls (snd (getLog cfg answer' (refresh (Some True) (snd (loadMore cfg answer lim s)))))
        = getLogCalls (snd (loadMore cfg answer lim s)) @ [count w']"
    by (simp add: eq getLog_calls refresh_def)
qed

text \<open>The sample history. A first load asks for two entries (or for the four a node
  remembers). After one more page, from a node that held the first window and from an
  empty node that had to load it first, the node remembers four and a reload asks for
  four.\<close>

theorem limit_requested_and_remembered_witness:
  "getLogCalls (snd (getLog cfg2 (Resolved (Some window2)) emptyNode)) = [2] \<and>
   getLogCalls (snd (getLog cfg2 (Resolved (Some window2)) (emptyNode\<lparr>limit := Some 4\<rparr>))) = [4] \<and>
   limit (snd (loadMore cfg2 Rejected None (loadedNode window2))) = Some 4 \<and>
   triggerChanges (snd (loadMore cfg2 Rejected None (loadedNode window2))) = [False] \<and>
   getLogCalls (snd (loadMore cfg2 Rejected None (loadedNode window2))) = [] \<and>
   getLogCalls (snd (getLog cfg2 (Resolved (Some window4))
      (refresh (Some True) (snd (loadMore cfg2 Rejected None (loadedNode window2)))))) = [4] \<and>
   limit (snd (loadMore cfg2 (Resolved (Some window2)) None emptyNode)) = Some 4 \<and>
   p_log (snd (loadMore cfg2 (Resolved (Some window2)) None emptyNode)) = Some window4 \<and>
   triggerChanges (snd (loadMore cfg2 (Resolved (Some window2)) None emptyNode)) = [False] \<and>
   getLogCalls (snd (loadMore cfg2 (Resolved (Some window2)) None emptyNode)) = [2] \<and>
   getLogCalls (snd (getLog cfg2 (Resolved (Some window4))
      (refresh (Some True) (snd (loadMore cfg2 (Resolved (Some window2)) None emptyNode))))) = [2, 4]"
proof -
  have cont: "hasMore window2 \<and>
      GitLog.more window2 = Some (\<lambda>_. Resolved (Some window4)) \<and>
      (\<lambda>_. Resolved (Some window4)) (moreArg cfg2 None) = Resolved (Some window4) \<and>
      ref window4 \<noteq> ref window2"
    by (simp add: window2_def window4_def)
  have cached: "fst (getLog cfg2 Rejected (loadedNode window2)) = Resolved (Some window2)"
    by (simp add: getLog_def getLog_call_def loadedNode_def)
  have fresh: "fst (getLog cfg2 (Resolved (Some window2)) emptyNode) = Resolved (Some window2)"
    by (simp add: getLog_def getLog_call_def getLog_resume_def emptyNode_def)
  have vals: "p_log emptyNode = None" "limit emptyNode = None" "defaultItemLimit cfg2 = 2"
     "getLogCalls emptyNode = []" "getLogCalls (loadedNode window2) = []"
     "triggerChanges (loadedNode window2) = []" "triggerChanges emptyNode = []" "count window4 = 4"
     "p_log (emptyNode\<lparr>limit := Some 4\<rparr>) = None" "p_log (loadedNode window2) = Some window2"
    by (simp_all add: emptyNode_def loadedNode_def cfg2_def window4_def)
  from limit_requested_and_remembered [where s = emptyNode and cfg = cfg2
      and answer = "Resolved (Some window2)"]
  have a: "getLogCalls (snd (getLog cfg2 (Resolved (Some window2)) emptyNode)) = [2]"
    by (simp add: vals)
  from limit_requested_and_remembered [where s = "emptyNode\<lparr>limit := Some 4\<rparr>" and cfg = cfg2
      and answer = "Resolved (Some window2)"]
  have b: "getLogCalls (snd (getLog cfg2 (Resolved (Some window2)) (emptyNode\<lparr>limit := Some 4\<rparr>))) = [4]"
    by (simp add: vals)
  from cont cached limit_requested_and_remembered [where s = "loadedNode window2" and w = window2
      and f = "\<lambda>_. Resolved (Some window4)" and cfg = cfg2 and lim = None and w' = window4
      and answer = Rejected and answer' = "Resolved (Some window4)"]
  have c: "limit (snd (loadMore cfg2 Rejected None (loadedNode window2))) = Some 4 \<and>
   triggerChanges (snd (loadMore cfg2 Rejected None (loadedNode window2))) = [False] \<and>
   getLogCalls (snd (loadMore cfg2 Rejected None (loadedNode window2))) = [] \<and>
   getLogCalls (snd (getLog cfg2 (Resolved (Some window4))
      (refresh (Some True) (snd (loadMore cfg2 Rejected None (loadedNode window2)))))) = [4]"
    by (simp add: vals)
  from cont fresh limit_requested_and_remembered [where s = emptyNode and w = window2
      and f = "\<lambda>_. Resolved (Some window4)" and cfg = cfg2 and lim = None and w' = window4
      and answer = "Resolved (Some window2)" and answer' = "Resolved (Some window4)"]
  have d: "limit (snd (loadMore cfg2 (Resolved (Some window2)) None emptyNode)) = Some 4 \<and>
   p_log (snd (loadMore cfg2 (Resolved (Some window2)) None emptyNode)) = Some window4 \<and>
   triggerChanges (snd (loadMore cfg2 (Resolved (Some window2)) None emptyNode)) = [False] \<and>
   getLogCalls (snd (loadMore cfg2 (Resolved (Some window2)) None emptyNode)) = [2] \<and>
   getLogCalls (snd (getLog cfg2 (Resolved (Some window4))
      (refresh (Some True) (snd (loadMore cfg2 (Resolved (Some window2)) None emptyNode))))) = [2, 4]"
    by (simp add: vals)
  from a b c d show ?thesis by blast
qed

subsection \<open>The hasMore getter\<close>

text \<open>
  Claim C9. The getter \<^verbatim>\<open>hasMore\<close> is true while no window is cached, in particular
  right after \<^verbatim>\<open>refresh(true)\<close>; with a cached window it is that window's own flag.
\<close>

theorem hasMore_getter:
  "(p_log s = None \<longrightarrow> WorktreeNode_hasMore s) \<and>
   (p_log s = Some w \<longrightarrow> WorktreeNode_hasMore s = hasMore w) \<and>
   WorktreeNode_hasMore (refresh (Some True) s)"
  by (simp add: WorktreeNode_hasMore_def refresh_def)

text \<open>An empty node, a node holding the complete history, and the same node reset.\<close>

theorem hasMore_getter_witness:
  "WorktreeNode_hasMore emptyNode \<and> \<not> WorktreeNode_hasMore (loadedNode window5) \<and>
   WorktreeNode_hasMore (refresh (Some True) (loadedNode window5))"
  using hasMore_getter [of emptyNode window5] hasMore_getter [of "loadedNode window5" window5]
  by (simp add: emptyNode_def loadedNode_def window5_def)

subsection \<open>The children\<close>

lemma insertDateMarkers_entries:
  "List.map_filter entryOf (insertDateMarkers (map CommitNode cs)) = cs"
proof (induction cs rule: induct_list012)
  case 1
  then show ?case by (simp add: List.map_filter_simps)
next
  case (2 x)
  then show ?case by (simp add: List.map_filter_simps)
next
  case (3 x y zs)
  then show ?case by (simp add: List.map_filter_simps)
qed

lemma insertDateMarkers_nodes:
  "set (insertDateMarkers (map CommitNode cs)) \<subseteq> insert DateMarkerNode (CommitNode ` set cs)"
  by (induction cs rule: induct_list012) auto

lemma insertDateMarkers_Nil: "(insertDateMarkers ns = []) = (ns = [])"
  by (induction ns rule: insertDateMarkers.induct) auto

lemma insertDateMarkers_last: "ns \<noteq> [] \<Longrightarrow> last (insertDateMarkers ns) = last ns"
  by (induction ns rule: insertDateMarkers.induct) (auto simp: insertDateMarkers_Nil)

lemma lastChild_markers:
  "lastChild (insertDateMarkers (map CommitNode cs)) =
     (if cs = [] then None else Some (CommitNode (last cs)))"
  by (simp add: lastChild_def insertDateMarkers_Nil insertDateMarkers_last last_map)

text \<open>
  Claim C5. Whenever the load resolves with no window (\<^verbatim>\<open>getLog\<close> returns \<^verbatim>\<open>undefined\<close>),
  \<^verbatim>\<open>getChildren\<close> resolves with exactly one child, the message node
  \<^verbatim>\<open>No commits could be found.\<close>, which is not an entry node; the status and the tips are
  not even consulted.
\<close>

theorem getChildren_placeholder:
  assumes "fst (getLog cfg answer s) = Resolved None"
  shows "\<exists>n. fst (getChildren cfg answer tips status s) = Resolved [n] \<and>
             n = MessageNode ''No commits could be found.'' \<and> entryOf n = None"
proof -
  obtain r s1 where g: "getLog cfg answer s = (r, s1)" by (cases "getLog cfg answer s")
  with assms have "r = Resolved None" by simp
  with g show ?thesis by (simp add: getChildren_def)
qed

text \<open>An empty node whose history source finds nothing, with status and tips that would
  fail if they were asked.\<close>

theorem getChildren_placeholder_witness:
  "fst (getChildren cfg2 (Resolved None) Rejected Rejected emptyNode) =
     Resolved [MessageNode ''No commits could be found.'']"
proof -
  have h: "fst (getLog cfg2 (Resolved None) emptyNode) = Resolved None"
    by (simp add: getLog_def getLog_call_def getLog_resume_def emptyNode_def)
  from getChildren_placeholder [OF h, of Rejected Rejected] show ?thesis by blast
qed

text \<open>
  Claim C6. When the load resolves with a window, the children are, in this order: the
  uncommitted-changes node, present exactly when the status exists and has changes; the
  entry nodes of the window with the date markers put in; and, exactly when the window
  has \<^verbatim>\<open>hasMore\<close>, one load-more node at the end, which refers to the node of the
  window's last entry (to nothing when the window has no entry). The entry nodes stand
  for the window's entries one by one and in the window's order, and every other node
  in that middle part is a date marker.
\<close>

theorem getChildren_shape:
  assumes "fst (getLog cfg answer s) = Resolved (Some w)"
  shows "fst (getChildren cfg answer (Resolved ()) (Resolved st) s) =
     Resolved
       ((case st of None \<Rightarrow> [] | Some g \<Rightarrow> if hasChanges g then [UncommittedFilesNode g] else []) @
        insertDateMarkers (map CommitNode (commits w)) @
        (if hasMore w
         then [LoadMoreNode (if commits w = [] then None else Some (CommitNode (last (commits w))))]
         else [])) \<and>
    List.map_filter entryOf (insertDateMarkers (map CommitNode (commits w))) = commits w \<and>
    set (insertDateMarkers (map CommitNode (commits w)))
      \<subseteq> insert DateMarkerNode (CommitNode ` set (commits w))"
proof (intro conjI)
  obtain r s1 where g: "getLog cfg answer s = (r, s1)" by (cases "getLog cfg answer s")
  with assms have r: "r = Resolved (Some w)" by simp
  show "fst (getChildren cfg answer (Resolved ()) (Resolved st) s) =
     Resolved
       ((case st of None \<Rightarrow> [] | Some g \<Rightarrow> if hasChanges g then [UncommittedFilesNode g] else []) @
        insertDateMarkers (map CommitNode (commits w)) @
        (if hasMore w
         then [LoadMoreNode (if commits w = [] then None else Some (CommitNode (last (commits w))))]
         else []))"
    by (cases st) (simp_all add: getChildren_def g r Let_def lastChild_markers)
  show "List.map_filter entryOf (insertDateMarkers (map CommitNode (commits w))) = commits w"
    by (rule insertDateMarkers_entries)
  show "set (insertDateMarkers (map CommitNode (commits w)))
      \<subseteq> insert DateMarkerNode (CommitNode ` set (commits w))"
    by (rule insertDateMarkers_nodes)
qed

text \<open>The window of four entries with pending changes: the marker sits where the day
  changes, between the second and the third entry.\<close>

theorem getChildren_shape_witness:
  "fst (getChildren cfg2 (Resolved (Some window4)) (Resolved ()) (Resolved (Some \<lparr>hasChanges = True\<rparr>))
          emptyNode) =
     Resolved [UncommittedFilesNode \<lparr>hasChanges = True\<rparr>, CommitNode c1, CommitNode c2,
               DateMarkerNode, CommitNode c3, CommitNode c4, LoadMoreNode (Some (CommitNode c4))] \<and>
   List.map_filter entryOf [CommitNode c1, CommitNode c2, DateMarkerNode, CommitNode c3, CommitNode c4]
     = [c1, c2, c3, c4]"
proof -
  have h: "fst (getLog cfg2 (Resolved (Some window4)) emptyNode) = Resolved (Some window4)"
    by (simp add: getLog_def getLog_call_def getLog_resume_def emptyNode_def)
  have d: "dayOf c1 = 2" "dayOf c2 = 2" "dayOf c3 = 1" "dayOf c4 = 1"
    by (simp_all add: dayOf_def c1_def c2_def c3_def c4_def)
  have v: "hasMore window4" "commits window4 = [c1, c2, c3, c4]"
    by (simp_all add: window4_def)
  from getChildren_shape [OF h, of "Some \<lparr>hasChanges = True\<rparr>"] show ?thesis
    by (simp add: d v)
qed

subsection \<open>Overlapping loads\<close>

text \<open>
  Claim C1, as the code has it. \<^verbatim>\<open>getLog\<close> caches the window only once the fetch has
  settled and keeps no record of a fetch in flight. On an empty cache, a second call that
  begins while the first is still awaiting the history source issues a fetch of its own
  (two fetches, each with \<^verbatim>\<open>limit ?? defaultItemLimit\<close>), and each call assigns its own
  result when it settles, the later one last. Only a second call that begins after the
  first has installed a window issues no fetch and returns that window.
\<close>

theorem getLog_overlapping_calls:
  assumes "p_log s = None" and "a \<noteq> b"
  shows "run cfg [GetLogCall a, GetLogCall b] (idle s) =
           Some \<lparr>node = s\<lparr>getLogCalls := getLogCalls s @
                      [case limit s of Some n \<Rightarrow> n | None \<Rightarrow> defaultItemLimit cfg,
                       case limit s of Some n \<Rightarrow> n | None \<Rightarrow> defaultItemLimit cfg]\<rparr>,
                 awaiting = [a, b], returned = []\<rparr> \<and>
         run cfg [GetLogCall a, GetLogCall b, GetLogSettle a (Resolved v), GetLogSettle b (Resolved v')]
             (idle s) =
           Some \<lparr>node = s\<lparr>getLogCalls := getLogCalls s @
                      [case limit s of Some n \<Rightarrow> n | None \<Rightarrow> defaultItemLimit cfg,
                       case limit s of Some n \<Rightarrow> n | None \<Rightarrow> defaultItemLimit cfg],
                      p_log := v'\<rparr>,
                 awaiting = [], returned = [(a, Resolved v), (b, Resolved v')]\<rparr> \<and>
         run cfg [GetLogCall a, GetLogSettle a (Resolved (Some w)), GetLogCall b] (idle s) =
           Some \<lparr>node = s\<lparr>getLogCalls := getLogCalls s @
                      [case limit s of Some n \<Rightarrow> n | None \<Rightarrow> defaultItemLimit cfg],
                      p_log := Some w\<rparr>,
                 awaiting = [], returned = [(a, Resolved (Some w)), (b, Resolved (Some w))]\<rparr>"
  using assms by (simp add: idle_def getLog_call_def getLog_resume_def)

text \<open>Two calls on the empty node, overlapping and one after the other.\<close>

theorem getLog_overlapping_calls_witness:
  "run cfg2 [GetLogCall 0, GetLogCall 1] (idle emptyNode) =
     Some \<lparr>node = emptyNode\<lparr>getLogCalls := [2, 2]\<rparr>, awaiting = [0, 1], returned = []\<rparr> \<and>
   run cfg2 [GetLogCall 0, GetLogCall 1, GetLogSettle 0 (Resolved (Some window2)),
             GetLogSettle 1 (Resolved (Some window4))] (idle emptyNode) =
     Some \<lparr>node = emptyNode\<lparr>getLogCalls := [2, 2], p_log := Some window4\<rparr>, awaiting = [],
           returned = [(0, Resolved (Some window2)), (1, Resolved (Some window4))]\<rparr> \<and>
   run cfg2 [GetLogCall 0, GetLogSettle 0 (Resolved (Some window2)), GetLogCall 1] (idle emptyNode) =
     Some \<lparr>node = emptyNode\<lparr>getLogCalls := [2], p_log := Some window2\<rparr>, awaiting = [],
           returned = [(0, Resolved (Some window2)), (1, Resolved (Some window2))]\<rparr>"
proof -
  have h: "p_log emptyNode = None" "(0::nat) \<noteq> 1"
    by (simp_all add: emptyNode_def)
  have v: "getLogCalls emptyNode = []" "limit emptyNode = None" "defaultItemLimit cfg2 = 2"
    by (simp_all add: emptyNode_def cfg2_def)
  from getLog_overlapping_calls [OF h, where cfg = cfg2 and v = "Some window2"
      and v' = "Some window4" and w = window2]
  show ?thesis by (simp add: v del: run.simps)
qed

text \<open>
  Claim C1, as stated, fails: two overlapping calls on the empty node leave two fetches
  issued and both callers awaiting the history source.
\<close>

theorem concurrent_getLog_counterexample:
  "map_option (\<lambda>m. (getLogCalls (node m), awaiting m, returned m))
     (run cfg2 [GetLogCall 0, GetLogCall 1] (idle emptyNode)) = Some ([2, 2], [0, 1], [])"
  by (simp add: idle_def emptyNode_def cfg2_def getLog_call_def)

subsection \<open>Reset\<close>

lemma busy_reached:
  "run cfg2 [GetLogCall 0, GetLogCall 1, GetLogSettle 0 (Resolved (Some window2))] (idle emptyNode)
     = Some busy"
  by (simp add: busy_def idle_def emptyNode_def cfg2_def getLog_call_def getLog_resume_def)

text \<open>
  Claim C2, as the code has it. \<^verbatim>\<open>refresh(true)\<close> sets \<^verbatim>\<open>_log\<close> to \<^verbatim>\<open>undefined\<close> at once
  and touches nothing else, so a \<^verbatim>\<open>getLog\<close> that begins in the next turn issues a fresh
  fetch, whatever is in flight. Nothing compares versions: a load that was in flight
  when the reset happened assigns its result to \<^verbatim>\<open>_log\<close> when it settles.
\<close>

theorem refresh_reset:
  "run cfg [RefreshCall (Some True)] m = Some (m\<lparr>node := (node m)\<lparr>p_log := None\<rparr>\<rparr>) \<and>
   (t' \<notin> set (awaiting m) \<and> t' \<notin> set (map fst (returned m)) \<longrightarrow>
      run cfg [RefreshCall (Some True), GetLogCall t'] m =
        Some (m\<lparr>node := (node m)\<lparr>p_log := None,
                     getLogCalls := getLogCalls (node m) @
                       [case limit (node m) of Some n \<Rightarrow> n | None \<Rightarrow> defaultItemLimit cfg]\<rparr>,
                awaiting := awaiting m @ [t']\<rparr>)) \<and>
   (t \<in> set (awaiting m) \<longrightarrow>
      run cfg [RefreshCall (Some True), GetLogSettle t (Resolved v)] m =
        Some (m\<lparr>node := (node m)\<lparr>p_log := v\<rparr>, awaiting := removeAll t (awaiting m),
                returned := returned m @ [(t, Resolved v)]\<rparr>))"
  by (simp add: refresh_def getLog_call_def getLog_resume_def)

text \<open>A reset while the second of two loads is still in flight.\<close>

theorem refresh_reset_witness:
  "run cfg2 [RefreshCall (Some True)] busy = Some (busy\<lparr>node := (node busy)\<lparr>p_log := None\<rparr>\<rparr>) \<and>
   run cfg2 [RefreshCall (Some True), GetLogCall 2] busy =
     Some (busy\<lparr>node := (node busy)\<lparr>p_log := None, getLogCalls := [2, 2, 2]\<rparr>,
                awaiting := [1, 2]\<rparr>) \<and>
   run cfg2 [RefreshCall (Some True), GetLogSettle 1 (Resolved (Some window4))] busy =
     Some (busy\<lparr>node := (node busy)\<lparr>p_log := Some window4\<rparr>, awaiting := [],
                returned := [(0, Resolved (Some window2)), (1, Resolved (Some window4))]\<rparr>)"
proof -
  have h: "2 \<notin> set (awaiting busy) \<and> 2 \<notin> set (map fst (returned busy))" "1 \<in> set (awaiting busy)"
    by (simp_all add: busy_def)
  have v: "getLogCalls (node busy) = [2, 2]" "limit (node busy) = None" "defaultItemLimit cfg2 = 2"
     "awaiting busy = [1]" "returned busy = [(0, Resolved (Some window2))]"
    by (simp_all add: busy_def emptyNode_def cfg2_def)
  from h refresh_reset [where cfg = cfg2 and m = busy and t' = 2 and t = 1 and v = "Some window4"]
  show ?thesis by (simp add: v del: run.simps)
qed

text \<open>
  Claim C2, as stated, fails: a load is in flight, the node is reset, the load settles
  with the window of two entries, and a call of \<^verbatim>\<open>getLog\<close> after that. The stale window
  is cached, the last call returns it, and the history source was asked once only.
\<close>

theorem reset_stale_commit_counterexample:
  "map_option (\<lambda>m. (p_log (node m), getLogCalls (node m), awaiting m, returned m))
     (run cfg2 [GetLogCall 0, RefreshCall (Some True), GetLogSettle 0 (Resolved (Some window2)),
                GetLogCall 1] (idle emptyNode))
   = Some (Some window2, [2], [], [(0, Resolved (Some window2)), (1, Resolved (Some window2))])"
  by (simp add: idle_def emptyNode_def cfg2_def getLog_call_def getLog_resume_def refresh_def)

end
